theory Spec2Isabelle
  imports Main "HOL-Library.Word" "HOL-Library.Sublist"
begin

section \<open>Data model of sqlstream.py\<close>

text \<open>
  Python exceptions that the modelled code can raise. \<open>Cv2Error\<close> stands for the
  exception of the image library, \<open>ResolveError\<close> for a failure of the stream
  resolver, \<open>DatabaseError\<close> for a failure to open or copy a database file.
\<close>

datatype error = TypeError | IndexError | IntegrityError | AttributeError
  | ZeroDivisionError | Cv2Error | ResolveError | DatabaseError

text \<open>A pixel is a triple of bytes in the order blue, green, red (the order of the frames
  the decoder yields); a frame is a list of pixel rows.\<close>

type_synonym pixel = "8 word \<times> 8 word \<times> 8 word"
type_synonym frame = "pixel list list"

text \<open>A TEXT column of SQLite: \<open>None\<close> is NULL.\<close>

type_synonym sql_text = "string option"

text \<open>A row of the table \<open>frame_library (frame_id INTEGER, line_no INTEGER, content TEXT)\<close>.\<close>

record lib_row =
  frame_id :: int
  line_no :: int
  content :: sql_text

text \<open>A row of the table \<open>display (line_no INTEGER PRIMARY KEY, content TEXT)\<close>.\<close>

type_synonym display_row = "int \<times> sql_text"

text \<open>
  The fields of \<open>SQLVideoEngine\<close>. The connection and its cursor are the two tables of
  the database they reach, in insertion order. The model covers databases that have
  the two tables of the schema.
\<close>

record engine =
  db_path :: string
  chars :: string
  display_w :: "int option"
  display_h :: "int option"
  frame_library :: "lib_row list"
  display :: "display_row list"

text \<open>A decoder handle: \<open>isOpened()\<close> and the frames that \<open>read()\<close> will yield.\<close>

record capture =
  cap_opened :: bool
  cap_frames :: "frame list"

text \<open>
  The collaborators outside the repository, taken as parameters: \<open>cv2.resize\<close> with
  the target width and height, \<open>cv2.cvtColor\<close> of one row to gray, the stream
  resolver of yt_dlp, \<open>cv2.VideoCapture\<close>, \<open>shutil.get_terminal_size\<close> as
  (columns, rows), and the frame budget \<open>int(video_fps * duration)\<close>, which the source
  computes in floating point from the handle, the duration and the target rate.
\<close>

record library =
  resize :: "frame \<Rightarrow> int \<Rightarrow> int \<Rightarrow> error + frame"
  cvt_gray :: "pixel list \<Rightarrow> 8 word list"
  extract_url :: "string \<Rightarrow> error + string"
  video_capture :: "string \<Rightarrow> capture"
  terminal_size :: "int \<times> int"
  frame_budget :: "capture \<Rightarrow> int \<Rightarrow> int \<Rightarrow> int"

section \<open>Frame encoder\<close>

text \<open>The default density ramp of \<open>__init__\<close>.\<close>

definition default_chars :: string where
  "default_chars = ''@%#*+=-:. ''"

text \<open>The escape character \<open>\033\<close>.\<close>

definition esc :: char where
  "esc = CHR 0x1B"

text \<open>Decimal rendering of a non-negative integer, as an f-string field does.\<close>

definition digit_char :: "nat \<Rightarrow> char" where
  "digit_char d = char_of (48 + d)"

fun str_nat :: "nat \<Rightarrow> string" where
  "str_nat n = (if n < 10 then [digit_char n] else str_nat (n div 10) @ [digit_char (n mod 10)])"

declare str_nat.simps [simp del]

text \<open>\<open>f"\033[48;2;{r};{g};{b}m "\<close> for one pixel \<open>(b, g, r)\<close>: the escape sequence
  and one space.\<close>

definition color_escape :: "pixel \<Rightarrow> string" where
  "color_escape p = (case p of (b, g, r) \<Rightarrow>
     esc # ''[48;2;'' @ str_nat (unat r) @ '';'' @ str_nat (unat g) @ '';''
       @ str_nat (unat b) @ ''m'')"

definition color_cell :: "pixel \<Rightarrow> string" where
  "color_cell p = color_escape p @ '' ''"

definition reset_code :: string where
  "reset_code = esc # ''[0m''"

text \<open>Line 51: the cells of a row joined, then the reset code.\<close>

definition color_line :: "pixel list \<Rightarrow> string" where
  "color_line row = concat (map color_cell row) @ reset_code"

text \<open>\<open>self.chars[p // 32]\<close>: indexing a string past its end raises IndexError.\<close>

definition glyph :: "string \<Rightarrow> 8 word \<Rightarrow> error + char" where
  "glyph cs p = (let i = unat p div 32 in
     if i < length cs then Inr (cs ! i) else Inl IndexError)"

text \<open>Line 55: the glyphs of a gray row, stopping at the first exception.\<close>

fun glyph_line :: "string \<Rightarrow> 8 word list \<Rightarrow> error + string" where
  "glyph_line cs [] = Inr []"
| "glyph_line cs (p # ps) =
     (case glyph cs p of
        Inl e \<Rightarrow> Inl e
      | Inr c \<Rightarrow> (case glyph_line cs ps of Inl e \<Rightarrow> Inl e | Inr l \<Rightarrow> Inr (c # l)))"

text \<open>The body of the loop over the rows of the resized frame, lines 48 to 56.\<close>

fun encode_rows :: "library \<Rightarrow> string \<Rightarrow> bool \<Rightarrow> pixel list list \<Rightarrow> error + string list" where
  "encode_rows lib cs use_color [] = Inr []"
| "encode_rows lib cs use_color (row # rows) =
     (case (if use_color then Inr (color_line row) else glyph_line cs (cvt_gray lib row)) of
        Inl e \<Rightarrow> Inl e
      | Inr l \<Rightarrow> (case encode_rows lib cs use_color rows of
                   Inl e \<Rightarrow> Inl e
                 | Inr ls \<Rightarrow> Inr (l # ls)))"

text \<open>\<open>frame_to_ansi\<close>: a dimension that is still \<open>None\<close> makes \<open>cv2.resize\<close> raise.\<close>

definition frame_to_ansi :: "library \<Rightarrow> engine \<Rightarrow> frame \<Rightarrow> bool \<Rightarrow> error + string list" where
  "frame_to_ansi lib st fr use_color =
     (case (display_w st, display_h st) of
        (Some w, Some h) \<Rightarrow>
          (case resize lib fr w h of
             Inl e \<Rightarrow> Inl e
           | Inr resized \<Rightarrow> encode_rows lib (chars st) use_color resized)
      | _ \<Rightarrow> Inl Cv2Error)"

section \<open>Frame store\<close>

text \<open>\<open>_prepare_tables\<close>: both tables are dropped and created again, empty.\<close>

definition prepare_tables :: "engine \<Rightarrow> engine" where
  "prepare_tables st = st\<lparr>frame_library := [], display := []\<rparr>"

text \<open>\<open>range(n)\<close> of Python: the integers from 0 to n - 1, none when n is not positive.\<close>

definition py_range :: "int \<Rightarrow> int list" where
  "py_range n = [0..n - 1]"

text \<open>\<open>x or d\<close> on an optional integer: \<open>None\<close> and 0 are false.\<close>

definition py_or :: "int option \<Rightarrow> int \<Rightarrow> int" where
  "py_or x d = (case x of None \<Rightarrow> d | Some v \<Rightarrow> if v = 0 then d else v)"

text \<open>Lines 81 and 82: the triples of one frame, \<open>(frame_id, i, line)\<close> for each
  enumerated line.\<close>

definition encoded_rows :: "int \<Rightarrow> string list \<Rightarrow> lib_row list" where
  "encoded_rows fid ls =
     map (\<lambda>(i, l). \<lparr>frame_id = fid, line_no = int i, content = Some l\<rparr>) (enumerate 0 ls)"

text \<open>
  The loop of lines 77 to 85 over the frames the decoder still holds: the bound is
  tested first, then \<open>read()\<close>, whose failure at the end of the stream leaves the loop.
  The progress message is not modelled.
\<close>

fun ingest_loop ::
  "library \<Rightarrow> engine \<Rightarrow> bool \<Rightarrow> int \<Rightarrow> int \<Rightarrow> lib_row list \<Rightarrow> frame list
     \<Rightarrow> error + (int \<times> lib_row list)" where
  "ingest_loop lib st use_color max_frames fid batch [] = Inr (fid, batch)"
| "ingest_loop lib st use_color max_frames fid batch (fr # frs) =
     (if fid < max_frames then
        (case frame_to_ansi lib st fr use_color of
           Inl e \<Rightarrow> Inl e
         | Inr ls \<Rightarrow>
             ingest_loop lib st use_color max_frames (fid + 1) (batch @ encoded_rows fid ls) frs)
      else Inr (fid, batch))"

text \<open>One \<open>INSERT INTO display\<close>: the primary key refuses a \<open>line_no\<close> already there.\<close>

definition insert_display :: "display_row list \<Rightarrow> display_row \<Rightarrow> error + display_row list" where
  "insert_display d r =
     (if fst r \<in> fst ` set d then Inl IntegrityError else Inr (d @ [r]))"

text \<open>\<open>executemany\<close> of that insertion.\<close>

fun insert_display_many :: "display_row list \<Rightarrow> display_row list \<Rightarrow> error + display_row list" where
  "insert_display_many d [] = Inr d"
| "insert_display_many d (r # rs) =
     (case insert_display d r of
        Inl e \<Rightarrow> Inl e
      | Inr d' \<Rightarrow> insert_display_many d' rs)"

text \<open>\<open>source.startswith(('http://', 'https://'))\<close>.\<close>

definition is_url :: "string \<Rightarrow> bool" where
  "is_url s = (prefix ''http://'' s \<or> prefix ''https://'' s)"

text \<open>
  \<open>ingest\<close>, returning the engine together with the boolean the method returns, or the
  exception that leaves it.
\<close>

definition ingest ::
  "library \<Rightarrow> engine \<Rightarrow> string \<Rightarrow> int \<Rightarrow> int \<Rightarrow> bool \<Rightarrow> error + (engine \<times> bool)" where
  "ingest lib st src duration fps_target use_color =
     (let st1 = prepare_tables st in
      case (if is_url src then extract_url lib src else Inr src) of
        Inl e \<Rightarrow> Inl e
      | Inr video_src \<Rightarrow>
          (let cap = video_capture lib video_src in
           if \<not> cap_opened cap then Inr (st1, False)
           else
             (let (cols, rows) = terminal_size lib;
                  w = py_or (display_w st1) cols;
                  h = py_or (display_h st1) (rows - 3);
                  st2 = st1\<lparr>display_w := Some w, display_h := Some h\<rparr>;
                  max_frames = frame_budget lib cap duration fps_target
              in case ingest_loop lib st2 use_color max_frames 0 [] (cap_frames cap) of
                   Inl e \<Rightarrow> Inl e
                 | Inr (fid, batch) \<Rightarrow>
                     (let st3 = st2\<lparr>frame_library := frame_library st2 @ batch\<rparr>
                      in case insert_display_many (display st3)
                                (map (\<lambda>i. (i, Some [])) (py_range h)) of
                           Inl e \<Rightarrow> Inl e
                         | Inr d \<Rightarrow> Inr (st3\<lparr>display := d\<rparr>, True)))))"

section \<open>Playback\<close>

text \<open>\<open>SELECT MAX(frame_id) FROM frame_library\<close>: NULL on an empty table.\<close>

definition max_frame_id :: "lib_row list \<Rightarrow> int option" where
  "max_frame_id rows =
     (case rows of
        [] \<Rightarrow> None
      | r # rs \<Rightarrow> Some (fold (\<lambda>x m. max (frame_id x) m) rs (frame_id r)))"

text \<open>
  The scalar subquery of the update: the content of the first row of the archive with
  that frame and line, NULL when there is none.
\<close>

definition subquery :: "lib_row list \<Rightarrow> int \<Rightarrow> int \<Rightarrow> sql_text" where
  "subquery rows k l =
     (case find (\<lambda>r. frame_id r = k \<and> line_no r = l) rows of
        None \<Rightarrow> None
      | Some r \<Rightarrow> content r)"

text \<open>The \<open>UPDATE display SET content = (SELECT ...)\<close> of lines 103 to 108.\<close>

definition sync_frame :: "engine \<Rightarrow> int \<Rightarrow> engine" where
  "sync_frame st k =
     st\<lparr>display := map (\<lambda>(l, c). (l, subquery (frame_library st) k l)) (display st)\<rparr>"

text \<open>\<open>SELECT content FROM display ORDER BY line_no\<close>.\<close>

definition read_current :: "engine \<Rightarrow> sql_text list" where
  "read_current st = map snd (sort_key fst (display st))"

text \<open>The items handed to \<open>str.join\<close>: an item that is \<open>None\<close> raises TypeError.\<close>

fun texts :: "sql_text list \<Rightarrow> error + string list" where
  "texts [] = Inr []"
| "texts (None # cs) = Inl TypeError"
| "texts (Some s # cs) = (case texts cs of Inl e \<Rightarrow> Inl e | Inr ss \<Rightarrow> Inr (s # ss))"

text \<open>
  One rendered tick: the frame number and the lines written to the terminal. The status
  line and the pacing sleep are terminal and clock effects and are not modelled.
\<close>

record tick =
  tick_frame :: int
  tick_lines :: "string list"

text \<open>
  The loop of \<open>play\<close> over the frame numbers still to render. It returns the engine, the
  ticks rendered, and the exception that ended the loop, if any. \<open>1/fps_target\<close> is
  evaluated after the tick is written and raises when the rate is 0.
\<close>

fun play_loop :: "engine \<Rightarrow> int \<Rightarrow> int list \<Rightarrow> engine \<times> tick list \<times> error option" where
  "play_loop st fps_target [] = (st, [], None)"
| "play_loop st fps_target (f # fs) =
     (let st' = sync_frame st f;
          frame_data = read_current st'
      in case texts frame_data of
           Inl e \<Rightarrow> (st', [], Some e)
         | Inr ls \<Rightarrow>
             (let t = \<lparr>tick_frame = f, tick_lines = ls\<rparr>
              in if fps_target = 0 then (st', [t], Some ZeroDivisionError)
                 else (case play_loop st' fps_target fs of
                         (st'', ts, err) \<Rightarrow> (st'', t # ts, err))))"

text \<open>\<open>play\<close>: \<open>total + 1\<close> on the \<open>None\<close> of an empty archive raises TypeError.\<close>

definition play :: "engine \<Rightarrow> int \<Rightarrow> engine \<times> tick list \<times> error option" where
  "play st fps_target =
     (case max_frame_id (frame_library st) of
        None \<Rightarrow> (st, [], Some TypeError)
      | Some tot \<Rightarrow> play_loop st fps_target (py_range (tot + 1)))"

section \<open>Command surface\<close>

text \<open>The parsed arguments of \<open>main\<close>.\<close>

record args =
  arg_source :: "string option"
  arg_play_db :: "string option"
  arg_duration :: int
  arg_fps :: int
  arg_color :: bool
  arg_out :: "string option"

text \<open>
  The file system as \<open>main\<close> sees it: \<open>os.path.exists\<close>, and the two tables that a
  connection to a path reaches, or the exception of opening or copying it.
\<close>

record os_env =
  path_exists :: "string \<Rightarrow> bool"
  open_database :: "string \<Rightarrow> error + (lib_row list \<times> display_row list)"

text \<open>What the process did, in order: a message printed, a database connection opened,
  a tick rendered.\<close>

datatype event = Printed string | Connected string | Rendered tick

text \<open>How \<open>main\<close> ends: it returns, it calls \<open>sys.exit\<close>, or an exception leaves it.\<close>

datatype outcome = Returned | SysExit int | Uncaught error

text \<open>The exit status of the interpreter for each ending.\<close>

definition exit_status :: "outcome \<Rightarrow> int" where
  "exit_status oc = (case oc of Returned \<Rightarrow> 0 | SysExit n \<Rightarrow> n | Uncaught e \<Rightarrow> 1)"

text \<open>Truth value of an optional string: \<open>None\<close> and the empty string are false.\<close>

definition truthy :: "string option \<Rightarrow> bool" where
  "truthy x = (case x of None \<Rightarrow> False | Some s \<Rightarrow> s \<noteq> [])"

text \<open>\<open>SQLVideoEngine(db_path=...)\<close> on the tables that the connection reaches.\<close>

definition new_engine :: "string \<Rightarrow> lib_row list \<times> display_row list \<Rightarrow> engine" where
  "new_engine path tabs =
     \<lparr>db_path = path, chars = default_chars, display_w = None, display_h = None,
      frame_library = fst tabs, display = snd tabs\<rparr>"

text \<open>\<open>sqlite3.connect\<close>: \<open>:memory:\<close> is a fresh database.\<close>

definition connect :: "os_env \<Rightarrow> string \<Rightarrow> error + (lib_row list \<times> display_row list)" where
  "connect env path = (if path = '':memory:'' then Inr ([], []) else open_database env path)"

definition ended :: "error option \<Rightarrow> outcome" where
  "ended err = (case err of None \<Rightarrow> Returned | Some e \<Rightarrow> Uncaught e)"

text \<open>Mode 1, lines 137 to 146: playback of an existing database, copied into memory.\<close>

definition replay :: "os_env \<Rightarrow> args \<Rightarrow> string \<Rightarrow> event list \<times> outcome" where
  "replay env a p =
     (if \<not> path_exists env p then
        ([Printed (''Error: Database file '' @ p @ '' not found.'')], SysExit 1)
      else
        (case connect env '':memory:'' of
           Inl e \<Rightarrow> ([Connected '':memory:''], Uncaught e)
         | Inr tabs0 \<Rightarrow>
             (case connect env p of
                Inl e \<Rightarrow> ([Connected '':memory:'', Connected p], Uncaught e)
              | Inr tabs \<Rightarrow>
                  (case play ((new_engine '':memory:'' tabs0)
                                \<lparr>frame_library := fst tabs, display := snd tabs\<rparr>) (arg_fps a) of
                     (st, ts, err) \<Rightarrow>
                       ([Connected '':memory:'', Connected p] @ map Rendered ts, ended err)))))"

text \<open>Mode 2, lines 149 to 157: ingestion, then playback when \<open>ingest\<close> returns true.
  The keyboard interrupt is asynchronous and is not modelled.\<close>

definition live :: "os_env \<Rightarrow> library \<Rightarrow> args \<Rightarrow> event list \<times> outcome" where
  "live env lib a =
     (let db_destination = (if truthy (arg_out a) then the (arg_out a) else '':memory:'') in
      case connect env db_destination of
        Inl e \<Rightarrow> ([Connected db_destination], Uncaught e)
      | Inr tabs \<Rightarrow>
          (case arg_source a of
             None \<Rightarrow> ([Connected db_destination], Uncaught AttributeError)
           | Some src \<Rightarrow>
               (case ingest lib (new_engine db_destination tabs) src
                       (arg_duration a) (arg_fps a) (arg_color a) of
                  Inl e \<Rightarrow> ([Connected db_destination], Uncaught e)
                | Inr (st, ok) \<Rightarrow>
                    if ok then
                      (case play st (arg_fps a) of
                         (st', ts, err) \<Rightarrow>
                           (Connected db_destination # map Rendered ts, ended err))
                    else ([Connected db_destination], Returned))))"

text \<open>\<open>main\<close> after the arguments are parsed.\<close>

definition main :: "os_env \<Rightarrow> library \<Rightarrow> args \<Rightarrow> event list \<times> outcome" where
  "main env lib a =
     (if truthy (arg_play_db a) then replay env a (the (arg_play_db a)) else live env lib a)"

text \<open>An event that reaches a database: opening a connection, or a tick of playback.\<close>

fun store_access :: "event \<Rightarrow> bool" where
  "store_access (Printed s) = False"
| "store_access (Connected p) = True"
| "store_access (Rendered t) = True"

section \<open>Notions used in the statements\<close>

text \<open>
  The batch that the loop of \<open>ingest\<close> builds from the encoded lines of consecutive
  frames, the first of them numbered \<open>fid\<close>.
\<close>

fun batch_of :: "int \<Rightarrow> string list list \<Rightarrow> lib_row list" where
  "batch_of fid [] = []"
| "batch_of fid (ls # lss) = encoded_rows fid ls @ batch_of (fid + 1) lss"

text \<open>
  The frames that the decoder of a source yields: \<open>cap.read()\<close> in order.
\<close>

definition decoded_frames :: "library \<Rightarrow> string \<Rightarrow> frame list" where
  "decoded_frames lib src =
     (case (if is_url src then extract_url lib src else Inr src) of
        Inl e \<Rightarrow> []
      | Inr video_src \<Rightarrow> cap_frames (video_capture lib video_src))"

text \<open>
  The contract of \<open>cv2.resize\<close> that the archive relies on: a resized frame has
  as many rows as the target height.
\<close>

definition resize_shape :: "library \<Rightarrow> bool" where
  "resize_shape lib = (\<forall>fr w h m. resize lib fr w h = Inr m \<longrightarrow> length m = nat h)"


text \<open>
  The length of the escape sequence of one pixel, and of the reset code.
\<close>

definition color_escape_length :: "pixel \<Rightarrow> nat" where
  "color_escape_length p = length (color_escape p)"

definition reset_code_length :: nat where
  "reset_code_length = length reset_code"

subsection \<open>A two-frame clip of two by two pixels\<close>

text \<open>
  A resize that accepts frames which already have the target size, a clip of two such
  frames, a decoder that yields it, a terminal of 2 columns and 5 rows, and the store
  that ingesting the clip in glyph mode leaves.
\<close>

definition same_size_resize :: "frame \<Rightarrow> int \<Rightarrow> int \<Rightarrow> error + frame" where
  "same_size_resize fr w h =
     (if 0 < w \<and> 0 < h \<and> int (length fr) = h \<and> list_all (\<lambda>row. int (length row) = w) fr
      then Inr fr else Inl Cv2Error)"

definition example_clip :: "frame list" where
  "example_clip =
     [[[(0, 0, 0), (0, 255, 0)], [(0, 64, 0), (0, 128, 0)]],
      [[(0, 32, 0), (0, 32, 0)], [(0, 0, 0), (0, 0, 0)]]]"

definition example_library :: library where
  "example_library =
     \<lparr>resize = same_size_resize,
      cvt_gray = map (\<lambda>(b, g, r). g),
      extract_url = (\<lambda>u. Inl ResolveError),
      video_capture = (\<lambda>p. \<lparr>cap_opened = True, cap_frames = example_clip\<rparr>),
      terminal_size = (2, 5),
      frame_budget = (\<lambda>c d f. f * d)\<rparr>"

definition example_store :: engine where
  "example_store =
     \<lparr>db_path = '':memory:'', chars = default_chars, display_w = Some 2, display_h = Some 2,
      frame_library =
        [\<lparr>frame_id = 0, line_no = 0, content = Some ''@:''\<rparr>,
         \<lparr>frame_id = 0, line_no = 1, content = Some ''#+''\<rparr>,
         \<lparr>frame_id = 1, line_no = 0, content = Some ''%%''\<rparr>,
         \<lparr>frame_id = 1, line_no = 1, content = Some ''@@''\<rparr>],
      display = [(0, Some []), (1, Some [])]\<rparr>"

definition example_args :: args where
  "example_args =
     \<lparr>arg_source = None, arg_play_db = Some ''missing.db'', arg_duration = 60, arg_fps = 30,
      arg_color = False, arg_out = None\<rparr>"

definition empty_disk :: os_env where
  "empty_disk = \<lparr>path_exists = (\<lambda>p. False), open_database = (\<lambda>p. Inl DatabaseError)\<rparr>"




section \<open>Encoder: glyph mode\<close>

lemma unat_byte: "unat (w :: 8 word) < 256"
proof -
  have "unat w < 2 ^ LENGTH(8)" by (rule unsigned_less)
  then show ?thesis by simp
qed

lemma bucket_bound: "unat (p :: 8 word) div 32 < 8"
  using unat_byte[of p] by simp

text \<open>
  With a ramp of at least 8 characters the glyph of a luminance is the ramp character
  at index luminance div 32, an index below 8 that grows with the luminance; luminance
  0 gives the first character and luminance 255 the character at index 7, which is the
  last one when the ramp has exactly 8 characters.
\<close>

lemma glyph_buckets:
  assumes "8 \<le> length cs"
  shows "glyph cs p = Inr (cs ! (unat p div 32))
       \<and> unat p div 32 < 8
       \<and> (p \<le> q \<longrightarrow> unat p div 32 \<le> unat q div 32)
       \<and> glyph cs 0 = Inr (hd cs)
       \<and> glyph cs 255 = Inr (cs ! 7)
       \<and> (length cs = 8 \<longrightarrow> glyph cs 255 = Inr (last cs))"
proof -
  have g: "glyph cs x = Inr (cs ! (unat x div 32))" for x
    using assms bucket_bound[of x] by (simp add: glyph_def)
  have mono: "unat p div 32 \<le> unat q div 32" if "p \<le> q"
    using that by (simp add: word_le_nat_alt div_le_mono)
  have ne: "cs \<noteq> []" using assms by auto
  have "length cs = 8 \<Longrightarrow> cs ! 7 = last cs"
    using ne by (simp add: last_conv_nth)
  then show ?thesis
    using g[of p] g[of 0] g[of 255] mono bucket_bound[of p] ne by (simp add: hd_conv_nth)
qed

lemma glyph_buckets_example:
  "8 \<le> length ''@%#*+=-:'' \<and> glyph ''@%#*+=-:'' 0 = Inr CHR ''@''
   \<and> glyph ''@%#*+=-:'' 255 = Inr CHR '':'' \<and> last ''@%#*+=-:'' = CHR '':''
   \<and> glyph ''@%#*+=-:'' 100 = Inr CHR ''*''"
  using glyph_buckets[of "''@%#*+=-:''" 100 200] by simp

text \<open>
  C3. The glyph mapping is monotonic with bucket boundaries at multiples of 32, luminance
  0 maps to the first ramp character and luminance 255 to the last one. With the ramp
  that \<open>__init__\<close> configures, which has 10 characters, luminance 255 maps to the
  character at index 7, a colon, and not to the last character, a space.
\<close>

theorem glyph_default_ramp_last:
  "glyph default_chars 255 = Inr CHR '':'' \<and> last default_chars = CHR '' ''
   \<and> glyph default_chars 255 \<noteq> Inr (last default_chars)"
  by (simp add: glyph_def default_chars_def)

section \<open>Encoder: color mode\<close>

lemma length_str_nat_byte:
  assumes "n < 256" shows "1 \<le> length (str_nat n) \<and> length (str_nat n) \<le> 3"
proof -
  have one: "length (str_nat m) = 1" if "m < 10" for m
    using that by (subst str_nat.simps) simp
  have two: "length (str_nat m) = 2" if "10 \<le> m" "m < 100" for m
    using that by (subst str_nat.simps) (simp add: one)
  have three: "length (str_nat m) = 3" if "100 \<le> m" "m < 1000" for m
    using that by (subst str_nat.simps) (simp add: two)
  show ?thesis
    using assms one[of n] two[of n] three[of n] by (cases "n < 10"; cases "n < 100") auto
qed

lemma color_escape_length_bounds:
  "13 \<le> color_escape_length p \<and> color_escape_length p \<le> 19"
proof -
  obtain b g r where p: "p = (b, g, r)" by (cases p)
  show ?thesis
    using length_str_nat_byte[OF unat_byte[of r]] length_str_nat_byte[OF unat_byte[of g]]
      length_str_nat_byte[OF unat_byte[of b]]
    by (simp add: p color_escape_length_def color_escape_def)
qed

lemma length_color_line:
  "length (color_line row) = sum_list (map (\<lambda>p. color_escape_length p + 1) row) + reset_code_length"
  by (induction row) (simp_all add: color_line_def color_cell_def color_escape_length_def reset_code_length_def)

lemma sum_cells_bounds:
  "length row * 14 \<le> sum_list (map (\<lambda>p. color_escape_length p + 1) row)
   \<and> sum_list (map (\<lambda>p. color_escape_length p + 1) row) \<le> length row * 20"
proof (induction row)
  case Nil
  then show ?case by simp
next
  case (Cons p row)
  then show ?case using color_escape_length_bounds[of p] by simp
qed

lemma sum_cells_uniform:
  "list_all (\<lambda>p. color_escape_length p = c) row \<Longrightarrow>
   sum_list (map (\<lambda>p. color_escape_length p + 1) row) = length row * (c + 1)"
  by (induction row) simp_all

text \<open>
  C5, as stated, fails: two rows of one pixel each have lines of different lengths, 18
  for a black pixel and 24 for a white one, so no fixed escape length gives the length
  of every row of width 1.
\<close>

theorem color_line_length_not_fixed:
  "length (color_line [(0, 0, 0)]) = 1 * (13 + 1) + 4
   \<and> length (color_line [(255, 255, 255)]) = 1 * (19 + 1) + 4
   \<and> length (color_line [(0, 0, 0)]) \<noteq> length (color_line [(255, 255, 255)])"
  by (simp add: color_line_def color_cell_def color_escape_def reset_code_def str_nat.simps)

lemma length_str_nat_digits:
  assumes "n < 1000"
  shows "length (str_nat n) = (if n < 10 then 1 else if n < 100 then 2 else 3)"
proof -
  have one: "length (str_nat m) = 1" if "m < 10" for m
    using that by (subst str_nat.simps) simp
  have two: "length (str_nat m) = 2" if "10 \<le> m" "m < 100" for m
    using that by (subst str_nat.simps) (simp add: one)
  have three: "length (str_nat m) = 3" if "100 \<le> m" "m < 1000" for m
    using that by (subst str_nat.simps) (simp add: two)
  show ?thesis
    using assms one[of n] two[of n] three[of n] by auto
qed

lemma color_escape_length_digits:
  "color_escape_length (b, g, r) =
     10 + length (str_nat (unat r)) + length (str_nat (unat g)) + length (str_nat (unat b))"
  by (simp add: color_escape_length_def color_escape_def)

text \<open>
  C5, amended. The length of a color line is the sum over its pixels of the escape
  length of the pixel plus 1, plus the length 4 of the reset code. The escape length of
  a pixel is 10 plus the numbers of decimal digits of its red, green and blue bytes,
  each 1, 2 or 3, so it is between 13 and 19, and the line of a row of W pixels has
  between W * (13 + 1) + 4 and W * (19 + 1) + 4 characters. When every pixel of the row
  has escape length c, the line has W * (c + 1) + 4 characters.
\<close>

theorem color_line_length:
  "length (color_line row) = sum_list (map (\<lambda>p. color_escape_length p + 1) row) + reset_code_length
   \<and> reset_code_length = 4
   \<and> color_escape_length (b, g, r) =
       10 + length (str_nat (unat r)) + length (str_nat (unat g)) + length (str_nat (unat b))
   \<and> length (str_nat (unat (x :: 8 word))) = (if unat x < 10 then 1 else if unat x < 100 then 2 else 3)
   \<and> 13 \<le> color_escape_length p \<and> color_escape_length p \<le> 19
   \<and> length row * (13 + 1) + 4 \<le> length (color_line row)
   \<and> length (color_line row) \<le> length row * (19 + 1) + 4
   \<and> (list_all (\<lambda>p. color_escape_length p = c) row \<longrightarrow>
        length (color_line row) = length row * (c + 1) + reset_code_length)"
proof -
  have r: "reset_code_length = 4"
    by (simp add: reset_code_length_def reset_code_def)
  have x: "unat x < 1000"
    using unat_byte[of x] by simp
  show ?thesis
    using sum_cells_bounds[of row] color_escape_length_bounds[of p] sum_cells_uniform[of c row]
      length_str_nat_digits[OF x]
    by (simp add: length_color_line r color_escape_length_digits)
qed

text \<open>
  A row of two pixels whose escapes both have 14 characters.
\<close>

theorem color_line_length_witness:
  "list_all (\<lambda>p. color_escape_length p = 14) [(0, 10, 0), (7, 7, 12)]
   \<and> length (color_line [(0, 10, 0), (7, 7, 12)]) = 2 * (14 + 1) + 4"
proof -
  have u: "list_all (\<lambda>p. color_escape_length p = 14) [(0, 10, 0), (7, 7, 12)]"
    by (simp add: color_escape_length_def color_escape_def str_nat.simps)
  show ?thesis
    using u color_line_length[of "[(0, 10, 0), (7, 7, 12)]" 0 0 0 0 "(0, 0, 0)" 14] by simp
qed

section \<open>Ingestion\<close>

lemma encode_rows_length:
  "encode_rows lib cs uc rows = Inr ls \<Longrightarrow> length ls = length rows"
  by (induction rows arbitrary: ls) (auto split: sum.splits if_splits)

lemma ingest_loop_batch:
  "ingest_loop lib st uc mf fid batch frs = Inr (fid', batch') \<Longrightarrow>
   \<exists>lss. batch' = batch @ batch_of fid lss \<and> fid' = fid + int (length lss)
     \<and> length lss = min (length frs) (nat (mf - fid))
     \<and> (\<forall>j<length lss. frame_to_ansi lib st (frs ! j) uc = Inr (lss ! j))"
proof (induction frs arbitrary: fid batch)
  case Nil
  then show ?case by (intro exI[of _ "[]"]) simp
next
  case (Cons fr frs)
  show ?case
  proof (cases "fid < mf")
    case False
    with Cons.prems show ?thesis by (intro exI[of _ "[]"]) simp
  next
    case True
    with Cons.prems obtain ls where ls: "frame_to_ansi lib st fr uc = Inr ls"
      and rec: "ingest_loop lib st uc mf (fid + 1) (batch @ encoded_rows fid ls) frs = Inr (fid', batch')"
      by (auto split: sum.splits)
    from Cons.IH[OF rec] obtain lss where
      b: "batch' = (batch @ encoded_rows fid ls) @ batch_of (fid + 1) lss"
      and f: "fid' = fid + 1 + int (length lss)"
      and n: "length lss = min (length frs) (nat (mf - (fid + 1)))"
      and e: "\<forall>j<length lss. frame_to_ansi lib st (frs ! j) uc = Inr (lss ! j)"
      by blast
    have e': "\<forall>j<length (ls # lss). frame_to_ansi lib st ((fr # frs) ! j) uc = Inr ((ls # lss) ! j)"
      using ls e by (auto simp: nth_Cons split: nat.splits)
    have n': "length (ls # lss) = min (length (fr # frs)) (nat (mf - fid))"
      using n True by auto
    show ?thesis
      using b f n' e' by (intro exI[of _ "ls # lss"]) simp
  qed
qed

lemma find_enumerate_rows:
  "find (\<lambda>r. frame_id r = k \<and> line_no r = l)
     (map (\<lambda>(i, s). \<lparr>frame_id = fid, line_no = int i, content = Some s\<rparr>) (enumerate n ls)) =
   (if k = fid \<and> int n \<le> l \<and> l < int n + int (length ls)
    then Some \<lparr>frame_id = fid, line_no = l, content = Some (ls ! nat (l - int n))\<rparr> else None)"
proof (induction ls arbitrary: n)
  case Nil
  then show ?case by simp
next
  case (Cons s ls)
  show ?case
  proof (cases "k = fid \<and> l = int n")
    case True
    then show ?thesis by simp
  next
    case False
    have step: "nat (l - int n) = Suc (nat (l - int (Suc n)))" if "int (Suc n) \<le> l"
      using that by simp
    have "find (\<lambda>r. frame_id r = k \<and> line_no r = l)
       (map (\<lambda>(i, s). \<lparr>frame_id = fid, line_no = int i, content = Some s\<rparr>) (enumerate n (s # ls)))
       = find (\<lambda>r. frame_id r = k \<and> line_no r = l)
       (map (\<lambda>(i, s). \<lparr>frame_id = fid, line_no = int i, content = Some s\<rparr>) (enumerate (Suc n) ls))"
      using False by auto
    also have "\<dots> = (if k = fid \<and> int (Suc n) \<le> l \<and> l < int (Suc n) + int (length ls)
    then Some \<lparr>frame_id = fid, line_no = l, content = Some (ls ! nat (l - int (Suc n)))\<rparr> else None)"
      by (rule Cons.IH)
    also have "\<dots> = (if k = fid \<and> int n \<le> l \<and> l < int n + int (length (s # ls))
    then Some \<lparr>frame_id = fid, line_no = l, content = Some ((s # ls) ! nat (l - int n))\<rparr> else None)"
    proof (cases "int (Suc n) \<le> l")
      case True
      then show ?thesis using step[OF True] by simp
    next
      case F: False
      with False show ?thesis by auto
    qed
    finally show ?thesis .
  qed
qed

lemma find_app:
  "find P (xs @ ys) = (case find P xs of None \<Rightarrow> find P ys | Some x \<Rightarrow> Some x)"
  by (induction xs) simp_all

lemma subquery_encoded_rows:
  "subquery (encoded_rows fid ls @ rest) k l =
   (if k = fid \<and> 0 \<le> l \<and> l < int (length ls) then Some (ls ! nat l) else subquery rest k l)"
  using find_enumerate_rows[of k l fid 0 ls]
  by (simp add: subquery_def encoded_rows_def find_app)

lemma subquery_batch_of:
  "subquery (batch_of fid lss) k l =
   (if fid \<le> k \<and> k < fid + int (length lss) \<and> 0 \<le> l \<and> l < int (length (lss ! nat (k - fid)))
    then Some (lss ! nat (k - fid) ! nat l) else None)"
proof (induction lss arbitrary: fid)
  case Nil
  then show ?case by (simp add: subquery_def)
next
  case (Cons ls lss)
  show ?case
  proof (cases "k = fid")
    case True
    then show ?thesis
      using Cons.IH[of "fid + 1"] by (simp add: subquery_encoded_rows)
  next
    case False
    then have "nat (k - fid) = Suc (nat (k - (fid + 1)))" if "fid \<le> k"
      using that by simp
    with False show ?thesis
      by (auto simp: subquery_encoded_rows Cons.IH)
  qed
qed

lemma filter_encoded_rows:
  "filter (\<lambda>r. frame_id r = k) (encoded_rows fid ls) = (if k = fid then encoded_rows fid ls else [])"
  by (auto simp: encoded_rows_def filter_empty_conv split_def intro: filter_True)

lemma line_no_encoded_rows: "map line_no (encoded_rows fid ls) = map int [0..<length ls]"
proof -
  have "map line_no (encoded_rows fid ls) = map (\<lambda>x. int (fst x)) (enumerate 0 ls)"
    by (simp add: encoded_rows_def split_def o_def)
  also have "\<dots> = map int (map fst (enumerate 0 ls))"
    by (simp only: map_map o_def)
  also have "\<dots> = map int [0..<length ls]"
    by (simp only: map_fst_enumerate) simp
  finally show ?thesis .
qed

lemma filter_batch_of:
  "filter (\<lambda>r. frame_id r = k) (batch_of fid lss) =
   (if fid \<le> k \<and> k < fid + int (length lss) then encoded_rows k (lss ! nat (k - fid)) else [])"
proof (induction lss arbitrary: fid)
  case Nil
  then show ?case by auto
next
  case (Cons ls lss)
  show ?case
  proof (cases "k = fid")
    case True
    then show ?thesis using Cons.IH[of "fid + 1"] by (simp add: filter_encoded_rows)
  next
    case False
    then have "nat (k - fid) = Suc (nat (k - (fid + 1)))" if "fid \<le> k"
      using that by simp
    with False show ?thesis
      by (auto simp: filter_encoded_rows Cons.IH)
  qed
qed

lemma frame_id_batch_of:
  "r \<in> set (batch_of fid lss) \<Longrightarrow> fid \<le> frame_id r \<and> frame_id r < fid + int (length lss)"
proof (induction lss arbitrary: fid)
  case Nil
  then show ?case by simp
next
  case (Cons ls lss)
  then show ?case by (fastforce simp: encoded_rows_def)
qed

lemma insert_display_many_fresh:
  "distinct (map fst rs) \<Longrightarrow> fst ` set d \<inter> fst ` set rs = {} \<Longrightarrow>
   insert_display_many d rs = Inr (d @ rs)"
proof (induction rs arbitrary: d)
  case Nil
  then show ?case by simp
next
  case (Cons r rs)
  have "fst r \<notin> fst ` set d" using Cons.prems(2) by auto
  moreover have "insert_display_many (d @ [r]) rs = Inr ((d @ [r]) @ rs)"
    using Cons.prems by (intro Cons.IH) auto
  ultimately show ?case by (simp add: insert_display_def)
qed

lemma py_range_upt: "py_range h = map int [0..<nat h]"
  by (auto simp: py_range_def list_eq_iff_nth_eq)

lemma frame_to_ansi_fields:
  "chars st = chars st' \<Longrightarrow> display_w st = display_w st' \<Longrightarrow> display_h st = display_h st' \<Longrightarrow>
   frame_to_ansi lib st fr uc = frame_to_ansi lib st' fr uc"
  by (simp add: frame_to_ansi_def split: option.splits sum.splits)

lemma frame_to_ansi_length:
  "resize_shape lib \<Longrightarrow> display_h st = Some h \<Longrightarrow> frame_to_ansi lib st fr uc = Inr ls \<Longrightarrow>
   length ls = nat h"
  by (auto simp: frame_to_ansi_def resize_shape_def split: option.splits sum.splits
      dest!: encode_rows_length)

lemma insert_range:
  "insert_display_many [] (map (\<lambda>i. (i, c)) (py_range h)) = Inr (map (\<lambda>i. (i, c)) (py_range h))"
proof -
  have "distinct (map fst (map (\<lambda>i. (i, c)) (py_range h)))"
    by (simp add: o_def py_range_def)
  then show ?thesis
    using insert_display_many_fresh[of "map (\<lambda>i. (i, c)) (py_range h)" "[]"] by simp
qed

text \<open>
  What a successful \<open>ingest\<close> leaves: both dimensions set, the archive made of the
  encoded lines of a prefix of the decoded frames, numbered from 0, and the mirror with
  one empty line for each number below the height.
\<close>

lemma ingest_success:
  assumes "ingest lib st src dur fps uc = Inr (st', True)"
  shows "\<exists>lss w h. display_w st' = Some w \<and> display_h st' = Some h \<and> chars st' = chars st
     \<and> frame_library st' = batch_of 0 lss
     \<and> display st' = map (\<lambda>i. (i, Some [])) (py_range h)
     \<and> length lss \<le> length (decoded_frames lib src)
     \<and> (\<forall>j<length lss. frame_to_ansi lib st' (decoded_frames lib src ! j) uc = Inr (lss ! j))"
proof -
  obtain video_src where v: "(if is_url src then extract_url lib src else Inr src) = Inr video_src"
    using assms by (cases "if is_url src then extract_url lib src else Inr src")
      (simp_all add: ingest_def)
  define cap where "cap = video_capture lib video_src"
  have fr: "decoded_frames lib src = cap_frames cap"
    by (simp add: decoded_frames_def v cap_def)
  have op: "cap_opened cap"
    using assms v by (auto simp: ingest_def cap_def Let_def split: if_splits)
  obtain cols rows where ts: "terminal_size lib = (cols, rows)"
    by (cases "terminal_size lib")
  define w where "w = py_or (display_w st) cols"
  define h where "h = py_or (display_h st) (rows - 3)"
  define st2 where "st2 = (prepare_tables st)\<lparr>display_w := Some w, display_h := Some h\<rparr>"
  define mf where "mf = frame_budget lib cap dur fps"
  have step: "ingest lib st src dur fps uc =
     (case ingest_loop lib st2 uc mf 0 [] (cap_frames cap) of
        Inl e \<Rightarrow> Inl e
      | Inr (fid, batch) \<Rightarrow>
          (case insert_display_many [] (map (\<lambda>i. (i, Some [])) (py_range h)) of
             Inl e \<Rightarrow> Inl e
           | Inr d \<Rightarrow> Inr (st2\<lparr>frame_library := batch, display := d\<rparr>, True)))"
    using op v ts
    by (simp add: ingest_def Let_def cap_def[symmetric] w_def h_def st2_def mf_def prepare_tables_def
        split: sum.splits prod.splits)
  obtain fid batch where loop: "ingest_loop lib st2 uc mf 0 [] (cap_frames cap) = Inr (fid, batch)"
    using assms unfolding step
    by (cases "ingest_loop lib st2 uc mf 0 [] (cap_frames cap)") auto
  have st': "st' = st2\<lparr>frame_library := batch, display := map (\<lambda>i. (i, Some [])) (py_range h)\<rparr>"
    using assms unfolding step loop by (simp add: insert_range)
  from ingest_loop_batch[OF loop] obtain lss where
    b: "batch = batch_of 0 lss" and n: "length lss = min (length (cap_frames cap)) (nat (mf - 0))"
    and e: "\<forall>j<length lss. frame_to_ansi lib st2 (cap_frames cap ! j) uc = Inr (lss ! j)"
    by auto
  have same: "frame_to_ansi lib st' fr' uc = frame_to_ansi lib st2 fr' uc" for fr'
    by (rule frame_to_ansi_fields) (simp_all add: st')
  show ?thesis
    using b n e same
    by (intro exI[of _ lss] exI[of _ w] exI[of _ h]) (simp add: st' st2_def prepare_tables_def fr)
qed

lemma read_current_sync_range:
  "display st = map (\<lambda>i. (i, c)) (py_range h) \<Longrightarrow>
   read_current (sync_frame st k) = map (\<lambda>i. subquery (frame_library st) k (int i)) [0..<nat h]"
proof -
  assume d: "display st = map (\<lambda>i. (i, c)) (py_range h)"
  have ds: "display (sync_frame st k) = map (\<lambda>i. (i, subquery (frame_library st) k i)) (py_range h)"
    by (simp add: sync_frame_def d o_def)
  have "sorted (map fst (display (sync_frame st k)))"
    by (simp add: ds o_def py_range_def)
  then have "sort_key fst (display (sync_frame st k)) = display (sync_frame st k)"
    by (rule sort_key_id_if_sorted)
  then show ?thesis
    by (simp add: read_current_def ds o_def py_range_upt)
qed

lemma example_ingest:
  "ingest example_library (new_engine '':memory:'' ([], [])) ''clip.mp4'' 1 10 False
     = Inr (example_store, True)"
  by (simp add: ingest_def example_library_def new_engine_def example_store_def example_clip_def
      is_url_def prepare_tables_def py_or_def frame_to_ansi_def same_size_resize_def glyph_def
      default_chars_def encoded_rows_def py_range_def upto.simps insert_display_def)

lemma example_reingest:
  "ingest example_library example_store ''clip.mp4'' 1 10 False = Inr (example_store, True)"
  by (simp add: ingest_def example_library_def example_store_def example_clip_def
      is_url_def prepare_tables_def py_or_def frame_to_ansi_def same_size_resize_def glyph_def
      default_chars_def encoded_rows_def py_range_def upto.simps insert_display_def)

lemma example_resize_shape: "resize_shape example_library"
  by (simp add: resize_shape_def example_library_def same_size_resize_def)

lemma example_frames: "decoded_frames example_library ''clip.mp4'' = example_clip"
  by (simp add: decoded_frames_def example_library_def is_url_def)

lemma example_store_fields:
  "display_h example_store = Some 2"
  "frame_library example_store =
        [\<lparr>frame_id = 0, line_no = 0, content = Some ''@:''\<rparr>,
         \<lparr>frame_id = 0, line_no = 1, content = Some ''#+''\<rparr>,
         \<lparr>frame_id = 1, line_no = 0, content = Some ''%%''\<rparr>,
         \<lparr>frame_id = 1, line_no = 1, content = Some ''@@''\<rparr>]"
  "display example_store = [(0, Some []), (1, Some [])]"
  by (simp_all add: example_store_def)

text \<open>
  C1. After an ingestion that completes, for every frame number k present in the archive
  with its full set of H lines stored, \<open>sync_frame\<close> of k followed by
  \<open>read_current\<close> returns exactly the H lines that the encoder produced for the k-th
  decoded frame, in the order of their line numbers.
\<close>

theorem sync_then_read_returns_encoded_lines:
  assumes ing: "ingest lib st src dur fps uc = Inr (st', True)"
    and h: "display_h st' = Some h"
    and present: "k \<in> frame_id ` set (frame_library st')"
    and full: "map line_no (filter (\<lambda>r. frame_id r = k) (frame_library st')) = py_range h"
  shows "\<exists>ls. frame_to_ansi lib st' (decoded_frames lib src ! nat k) uc = Inr ls
           \<and> length ls = nat h
           \<and> read_current (sync_frame st' k) = map Some ls"
proof -
  from ingest_success[OF ing] h obtain lss where
    arch: "frame_library st' = batch_of 0 lss"
    and disp: "display st' = map (\<lambda>i. (i, Some [])) (py_range h)"
    and enc: "\<forall>j<length lss. frame_to_ansi lib st' (decoded_frames lib src ! j) uc = Inr (lss ! j)"
    by auto
  from present arch have k: "0 \<le> k" "k < int (length lss)"
    using frame_id_batch_of[of _ 0 lss] by auto
  define ls where "ls = lss ! nat k"
  have "map line_no (filter (\<lambda>r. frame_id r = k) (frame_library st')) = map int [0..<length ls]"
    using k by (simp add: arch filter_batch_of line_no_encoded_rows ls_def)
  with full have "length (map int [0..<length ls]) = length (py_range h)"
    by simp
  then have len: "length ls = nat h"
    by (simp add: py_range_upt)
  have "read_current (sync_frame st' k) = map (\<lambda>i. subquery (frame_library st') k (int i)) [0..<nat h]"
    using disp by (rule read_current_sync_range)
  also have "\<dots> = map (\<lambda>i. Some (ls ! i)) [0..<length ls]"
    using k len by (auto simp: arch subquery_batch_of ls_def)
  also have "\<dots> = map Some (map ((!) ls) [0..<length ls])"
    by (simp add: o_def)
  also have "\<dots> = map Some ls"
    by (simp only: map_nth)
  finally have rd: "read_current (sync_frame st' k) = map Some ls" .
  have "frame_to_ansi lib st' (decoded_frames lib src ! nat k) uc = Inr ls"
    using enc k by (simp add: ls_def)
  with len rd show ?thesis by blast
qed

text \<open>
  On the two-frame clip, frame 1 reads back as its two encoded lines.
\<close>

theorem sync_then_read_returns_encoded_lines_witness:
  "ingest example_library (new_engine '':memory:'' ([], [])) ''clip.mp4'' 1 10 False
     = Inr (example_store, True)
   \<and> display_h example_store = Some 2
   \<and> 1 \<in> frame_id ` set (frame_library example_store)
   \<and> map line_no (filter (\<lambda>r. frame_id r = 1) (frame_library example_store)) = py_range 2
   \<and> frame_to_ansi example_library example_store (example_clip ! 1) False = Inr [''%%'', ''@@'']
   \<and> read_current (sync_frame example_store 1) = [Some ''%%'', Some ''@@'']"
proof -
  have h: "display_h example_store = Some 2"
    by (simp add: example_store_fields)
  have present: "1 \<in> frame_id ` set (frame_library example_store)"
    by (simp add: example_store_fields)
  have full: "map line_no (filter (\<lambda>r. frame_id r = 1) (frame_library example_store)) = py_range 2"
    by (simp add: example_store_fields py_range_def upto.simps)
  have enc: "frame_to_ansi example_library example_store (example_clip ! 1) False = Inr [''%%'', ''@@'']"
    by (simp add: frame_to_ansi_def example_library_def example_store_def example_clip_def
        same_size_resize_def glyph_def default_chars_def)
  from sync_then_read_returns_encoded_lines[OF example_ingest h present full]
  obtain ls where "frame_to_ansi example_library example_store
      (decoded_frames example_library ''clip.mp4'' ! nat 1) False = Inr ls"
    and "read_current (sync_frame example_store 1) = map Some ls"
    by blast
  then have "read_current (sync_frame example_store 1) = [Some ''%%'', Some ''@@'']"
    using enc by (simp add: example_frames)
  with example_ingest h present full enc show ?thesis by blast
qed

text \<open>
  C2. After an ingestion that completes, with a resize that returns as many rows as
  the height H, there is a number n of ingested frames such that the frame numbers of
  the archive are below n and not negative, and every frame number from 0 to n - 1 has
  exactly the line numbers 0, ..., H - 1 stored, each once and in this order.
\<close>

theorem archive_lines_complete:
  assumes shape: "resize_shape lib"
    and ing: "ingest lib st src dur fps uc = Inr (st', True)"
    and h: "display_h st' = Some h"
  shows "\<exists>n. n \<le> length (decoded_frames lib src)
           \<and> (\<forall>r \<in> set (frame_library st'). 0 \<le> frame_id r \<and> frame_id r < int n)
           \<and> (\<forall>k. 0 \<le> k \<and> k < int n \<longrightarrow>
                 map line_no (filter (\<lambda>r. frame_id r = k) (frame_library st')) = py_range h)"
proof -
  from ingest_success[OF ing] h obtain lss where
    arch: "frame_library st' = batch_of 0 lss"
    and n: "length lss \<le> length (decoded_frames lib src)"
    and enc: "\<forall>j<length lss. frame_to_ansi lib st' (decoded_frames lib src ! j) uc = Inr (lss ! j)"
    by auto
  have ids: "\<forall>r \<in> set (frame_library st'). 0 \<le> frame_id r \<and> frame_id r < int (length lss)"
    using frame_id_batch_of[of _ 0 lss] by (simp add: arch)
  have lines: "map line_no (filter (\<lambda>r. frame_id r = k) (frame_library st')) = py_range h"
    if "0 \<le> k" "k < int (length lss)" for k
  proof -
    have "frame_to_ansi lib st' (decoded_frames lib src ! nat k) uc = Inr (lss ! nat k)"
      using enc that by simp
    then have "length (lss ! nat k) = nat h"
      using shape h by (rule frame_to_ansi_length[rotated 2])
    then show ?thesis
      using that by (simp add: arch filter_batch_of line_no_encoded_rows py_range_upt)
  qed
  show ?thesis
    using n ids lines by (intro exI[of _ "length lss"]) simp
qed

text \<open>
  On the two-frame clip.
\<close>

theorem archive_lines_complete_witness:
  "resize_shape example_library
   \<and> ingest example_library (new_engine '':memory:'' ([], [])) ''clip.mp4'' 1 10 False
       = Inr (example_store, True)
   \<and> display_h example_store = Some 2
   \<and> (\<exists>n. n \<le> length (decoded_frames example_library ''clip.mp4'')
           \<and> (\<forall>r \<in> set (frame_library example_store). 0 \<le> frame_id r \<and> frame_id r < int n)
           \<and> (\<forall>k. 0 \<le> k \<and> k < int n \<longrightarrow>
                 map line_no (filter (\<lambda>r. frame_id r = k) (frame_library example_store))
                   = py_range 2))"
proof -
  have h: "display_h example_store = Some 2"
    by (simp add: example_store_fields)
  from archive_lines_complete[OF example_resize_shape example_ingest h]
  show ?thesis
    using example_resize_shape example_ingest h by blast
qed







section \<open>Synchronisation\<close>

text \<open>
  C7. \<open>sync_frame\<close> is idempotent: a second call with the same frame number leaves
  the engine, and so what \<open>read_current\<close> returns, as the first call left it.
\<close>

theorem sync_frame_idempotent:
  "sync_frame (sync_frame st k) k = sync_frame st k
   \<and> read_current (sync_frame (sync_frame st k) k) = read_current (sync_frame st k)"
  by (simp add: sync_frame_def split_def o_def)

lemma subquery_absent:
  "k \<notin> frame_id ` set rows \<Longrightarrow> subquery rows k l = None"
proof -
  assume "k \<notin> frame_id ` set rows"
  then have "find (\<lambda>r. frame_id r = k \<and> line_no r = l) rows = None"
    by (auto simp: find_None_iff)
  then show ?thesis by (simp add: subquery_def)
qed

text \<open>
  C9. \<open>sync_frame\<close> with a frame number absent from the archive sets the content
  of every mirror row to NULL; the rows, their number and their line numbers stay.
\<close>

theorem sync_absent_frame_nulls_mirror:
  assumes "k \<notin> frame_id ` set (frame_library st)"
  shows "display (sync_frame st k) = map (\<lambda>(l, c). (l, None)) (display st)
       \<and> map fst (display (sync_frame st k)) = map fst (display st)
       \<and> length (display (sync_frame st k)) = length (display st)
       \<and> read_current (sync_frame st k) = replicate (length (display st)) None"
proof -
  have d: "display (sync_frame st k) = map (\<lambda>(l, c). (l, None)) (display st)"
    using assms by (simp add: sync_frame_def subquery_absent)
  have "read_current (sync_frame st k) = replicate (length (display st)) None"
    by (rule replicate_eqI) (auto simp: read_current_def d)
  then show ?thesis
    by (simp add: d split_def o_def)
qed

text \<open>
  Frame 5 of the two-frame clip.
\<close>

theorem sync_absent_frame_nulls_mirror_witness:
  "5 \<notin> frame_id ` set (frame_library example_store)
   \<and> display (sync_frame example_store 5) = [(0, None), (1, None)]
   \<and> read_current (sync_frame example_store 5) = [None, None]"
proof -
  have a: "5 \<notin> frame_id ` set (frame_library example_store)"
    by (simp add: example_store_fields)
  from sync_absent_frame_nulls_mirror[OF a] show ?thesis
    using a by (simp add: example_store_fields numeral_2_eq_2)
qed

section \<open>Playback\<close>

text \<open>
  C10. On an empty archive \<open>play\<close> raises TypeError before any tick is rendered:
  the maximum is \<open>None\<close> and \<open>total + 1\<close> fails.
\<close>

theorem play_empty_archive_raises:
  "play (st\<lparr>frame_library := []\<rparr>) fps = (st\<lparr>frame_library := []\<rparr>, [], Some TypeError)"
  by (simp add: play_def max_frame_id_def)















section \<open>Command surface: exit status\<close>

lemma ended_not_exit: "ended err \<noteq> SysExit n"
  by (cases err) (simp_all add: ended_def)

lemma replay_exit:
  "snd (replay env a p) = SysExit n \<Longrightarrow> n = 1"
  by (auto simp: replay_def ended_not_exit split: if_splits sum.splits prod.splits)

lemma live_exit:
  "snd (live env lib a) \<noteq> SysExit n"
  by (auto simp: live_def Let_def ended_not_exit split: if_splits sum.splits prod.splits option.splits)

lemma main_exit: "snd (main env lib a) = SysExit n \<Longrightarrow> n = 1"
  using replay_exit[of env a "the (arg_play_db a)" n] live_exit[of env lib a n]
  by (simp add: main_def split: if_splits)

text \<open>
  C8. In replay mode, when the path given does not exist, \<open>main\<close> prints the error
  message and exits with status 1, and nothing before that reached a database: no
  connection was opened and no tick rendered. The exit status of \<open>main\<close> is 0 exactly
  when it returns normally.
\<close>

theorem missing_store_fails_fast:
  "(arg_play_db a = Some p \<and> p \<noteq> [] \<and> \<not> path_exists env p \<longrightarrow>
      main env lib a = ([Printed (''Error: Database file '' @ p @ '' not found.'')], SysExit 1)
      \<and> filter store_access (fst (main env lib a)) = []
      \<and> exit_status (snd (main env lib a)) = 1)
   \<and> (exit_status (snd (main env lib a)) = 0 \<longleftrightarrow> snd (main env lib a) = Returned)"
proof -
  have "main env lib a = ([Printed (''Error: Database file '' @ p @ '' not found.'')], SysExit 1)"
    if "arg_play_db a = Some p" "p \<noteq> []" "\<not> path_exists env p"
    using that by (simp add: main_def truthy_def replay_def)
  moreover have "exit_status (snd (main env lib a)) = 0 \<longleftrightarrow> snd (main env lib a) = Returned"
    using main_exit[of env lib a] by (cases "snd (main env lib a)") (auto simp: exit_status_def)
  ultimately show ?thesis
    by (auto simp: exit_status_def)
qed

text \<open>
  Replay of a path on a disk that has no file.
\<close>

theorem missing_store_fails_fast_witness:
  "arg_play_db example_args = Some ''missing.db'' \<and> ''missing.db'' \<noteq> []
   \<and> \<not> path_exists empty_disk ''missing.db''
   \<and> main empty_disk example_library example_args
       = ([Printed ''Error: Database file missing.db not found.''], SysExit 1)
   \<and> exit_status (snd (main empty_disk example_library example_args)) = 1"
proof -
  have a: "arg_play_db example_args = Some ''missing.db''"
    by (simp add: example_args_def)
  have b: "\<not> path_exists empty_disk ''missing.db''"
    by (simp add: empty_disk_def)
  from missing_store_fails_fast[of example_args "''missing.db''" empty_disk example_library]
  show ?thesis
    using a b by (simp add: exit_status_def)
qed

end
